theory Spec2Isabelle
  imports Main "HOL-Library.Sublist" "HOL-Library.Multiset" "HOL-Library.Word"
begin

section \<open>Strings of the Go standard library\<close>

text \<open>
  A Go string is a sequence of bytes, here a \<^typ>\<open>string\<close>. \<^verbatim>\<open>HasSuffix\<close>,
  \<^verbatim>\<open>TrimSuffix\<close> and \<^verbatim>\<open>Contains\<close> of package \<^verbatim>\<open>strings\<close> work on bytes and are written
  out in full. \<^verbatim>\<open>strings.ToLower\<close> and \<^verbatim>\<open>strings.TrimSpace\<close> decode UTF-8 and consult the
  Unicode tables; what is written out here is what they do on a string of ASCII bytes:
  \<open>ToLower\<close> serves the classifier, whose argument is a domain name of a DNS response
  (ASCII, as \<^verbatim>\<open>miekg/dns\<close> presents names), and both serve the ASCII examples. The job
  dispatcher, which reads arbitrary lines, takes the two functions as parameters.
\<close>

definition lower_byte :: "char \<Rightarrow> char" where
  "lower_byte c =
     (if (65::nat) \<le> of_char c \<and> of_char c \<le> (90::nat)
      then char_of (of_char c + (32::nat)) else c)"

definition ToLower :: "string \<Rightarrow> string" where
  "ToLower s = map lower_byte s"

definition asciiSpace :: "char \<Rightarrow> bool" where
  "asciiSpace c \<longleftrightarrow> of_char c \<in> {9::nat, 10, 11, 12, 13, 32}"

definition TrimSpace_ascii :: "string \<Rightarrow> string" where
  "TrimSpace_ascii s = rev (dropWhile asciiSpace (rev (dropWhile asciiSpace s)))"

definition HasSuffix :: "string \<Rightarrow> string \<Rightarrow> bool" where
  "HasSuffix s suf \<longleftrightarrow> suffix suf s"

definition TrimSuffix :: "string \<Rightarrow> string \<Rightarrow> string" where
  "TrimSuffix s suf = (if HasSuffix s suf then take (length s - length suf) s else s)"

text \<open>\<^verbatim>\<open>strings.Contains(s, substr)\<close>: \<open>substr\<close> occurs in \<open>s\<close> at some offset.\<close>

fun Contains :: "string \<Rightarrow> string \<Rightarrow> bool" where
  "Contains [] substr = (substr = [])"
| "Contains (c # s) substr = (prefix substr (c # s) \<or> Contains s substr)"

section \<open>The vulnerability classifier\<close>

text \<open>
  \<^verbatim>\<open>vulnerablePatterns\<close> is a Go map literal. Its entries are listed here in the order of
  the source text; the keys are pairwise distinct.
\<close>

definition vulnerablePatterns :: "(string \<times> string) list" where
  "vulnerablePatterns =
    [(''.s3.amazonaws.com'', ''AWS S3''),
     (''.s3-website'', ''AWS S3''),
     (''.s3.dualstack'', ''AWS S3''),
     (''.cloudfront.net'', ''AWS CloudFront''),
     (''.elasticbeanstalk.com'', ''AWS Elastic Beanstalk''),
     (''.herokuapp.com'', ''Heroku''),
     (''.herokudns.com'', ''Heroku''),
     (''.wordpress.com'', ''WordPress''),
     (''.pantheonsite.io'', ''Pantheon''),
     (''.github.io'', ''GitHub Pages''),
     (''.gitlab.io'', ''GitLab Pages''),
     (''.surge.sh'', ''Surge.sh''),
     (''.bitbucket.io'', ''Bitbucket''),
     (''.zendesk.com'', ''Zendesk''),
     (''.desk.com'', ''Desk.com''),
     (''.fastly.net'', ''Fastly''),
     (''.feedpress.me'', ''FeedPress''),
     (''.ghost.io'', ''Ghost''),
     (''.helpjuice.com'', ''Helpjuice''),
     (''.helpscoutdocs.com'', ''HelpScout''),
     (''.azurewebsites.net'', ''Azure''),
     (''.cloudapp.azure.com'', ''Azure''),
     (''.cloudapp.net'', ''Azure''),
     (''.trafficmanager.net'', ''Azure Traffic Manager''),
     (''.blob.core.windows.net'', ''Azure Blob''),
     (''.azureedge.net'', ''Azure CDN''),
     (''.azure-api.net'', ''Azure API Management''),
     (''.azurefd.net'', ''Azure Front Door''),
     (''.statuspage.io'', ''StatusPage''),
     (''.uservoice.com'', ''UserVoice''),
     (''.smartling.com'', ''Smartling''),
     (''.tictail.com'', ''Tictail''),
     (''.campaignmonitor.com'', ''Campaign Monitor''),
     (''.createsend.com'', ''CreateSend''),
     (''.acquia-sites.com'', ''Acquia''),
     (''.proposify.biz'', ''Proposify''),
     (''.simplebooklet.com'', ''Simplebooklet''),
     (''.getresponse.com'', ''GetResponse''),
     (''.vend.com'', ''Vend''),
     (''.jetbrains.space'', ''JetBrains Space''),
     (''.myjetbrains.com'', ''JetBrains''),
     (''.netlify.app'', ''Netlify''),
     (''.netlify.com'', ''Netlify''),
     (''.vercel.app'', ''Vercel''),
     (''.now.sh'', ''Vercel'')]"

text \<open>
  \<^verbatim>\<open>for pattern, service := range vulnerablePatterns\<close> visits every entry of the map
  once, in an order the Go language leaves unspecified and the runtime varies from one
  loop to the next. The order of one run of the loop is the list \<open>order\<close>, and
  \<open>iteration_order\<close> says that it is an enumeration of the map.
\<close>

definition iteration_order :: "(string \<times> string) list \<Rightarrow> bool" where
  "iteration_order order \<longleftrightarrow> mset order = mset vulnerablePatterns"

fun range_patterns :: "(string \<times> string) list \<Rightarrow> string \<Rightarrow> string" where
  "range_patterns [] cname = []"
| "range_patterns ((pattern, service) # rest) cname =
     (if Contains cname pattern then service else range_patterns rest cname)"

definition checkVulnerableService :: "(string \<times> string) list \<Rightarrow> string \<Rightarrow> string" where
  "checkVulnerableService order cname = range_patterns order (ToLower cname)"

section \<open>Configuration\<close>

text \<open>
  The flags of the program, on a 64-bit platform: Go's \<^verbatim>\<open>int\<close> and \<^verbatim>\<open>time.Duration\<close>
  (an \<^verbatim>\<open>int64\<close> of nanoseconds) are 64-bit words, read as signed numbers by \<open>sint\<close>;
  their addition and multiplication wrap around.
\<close>

record Config =
  concurrency :: "64 word"
  timeout :: "64 word"
  verbose :: bool
  resolvers :: "string list"
  retries :: "64 word"

definition Millisecond :: "64 word" where
  "Millisecond = 1000000"

section \<open>One CNAME lookup\<close>

text \<open>
  A resource record of \<^verbatim>\<open>miekg/dns\<close>, as far as \<^verbatim>\<open>getCNAME\<close> tells records apart: by
  the type assertions \<^verbatim>\<open>*dns.CNAME\<close>, \<^verbatim>\<open>*dns.A\<close>, \<^verbatim>\<open>*dns.SOA\<close>, and by the target of a
  CNAME. A message has an answer section and an authority section (\<^verbatim>\<open>r.Ns\<close>).
\<close>

datatype RR = RR_CNAME (Target: string) | RR_A | RR_SOA | RR_other

record Msg =
  Answer :: "RR list"
  Ns :: "RR list"

text \<open>
  A Go \<^verbatim>\<open>error\<close> is its message; a result \<^verbatim>\<open>(string, error)\<close> is a pair whose second
  component is \<open>None\<close> for \<^verbatim>\<open>nil\<close>. The network is what \<^verbatim>\<open>c.ExchangeContext\<close> returns
  to the \<open>n\<close>-th exchange of a run (counted from 0), for a question name and a server
  address: an error, or a response message.
\<close>

type_synonym error = string

type_synonym network = "nat \<Rightarrow> string \<Rightarrow> string \<Rightarrow> error + Msg"

text \<open>The three loops of \<^verbatim>\<open>getCNAME\<close> over the sections of the response.\<close>

fun range_Answer_CNAME :: "RR list \<Rightarrow> string option" where
  "range_Answer_CNAME [] = None"
| "range_Answer_CNAME (RR_CNAME target # rest) = Some (TrimSuffix target ''.'')"
| "range_Answer_CNAME (ans # rest) = range_Answer_CNAME rest"

fun range_Answer_A :: "RR list \<Rightarrow> bool" where
  "range_Answer_A [] = False"
| "range_Answer_A (RR_A # rest) = True"
| "range_Answer_A (ans # rest) = range_Answer_A rest"

fun range_Ns_SOA :: "RR list \<Rightarrow> bool" where
  "range_Ns_SOA [] = False"
| "range_Ns_SOA (RR_SOA # rest) = True"
| "range_Ns_SOA (ns # rest) = range_Ns_SOA rest"

definition getCNAME :: "network \<Rightarrow> nat \<Rightarrow> string \<Rightarrow> string \<Rightarrow> string \<times> error option" where
  "getCNAME net n domain server =
     (let qname = (if \<not> HasSuffix domain ''.'' then domain @ ''.'' else domain) in
      case net n qname (server @ '':53'') of
        Inl err \<Rightarrow> ([], Some (''DNS query failed: '' @ err))
      | Inr r \<Rightarrow>
          (case range_Answer_CNAME (Answer r) of
             Some cname \<Rightarrow> (cname, None)
           | None \<Rightarrow>
               if range_Answer_A (Answer r) then ([], None)
               else if length (Ns r) > 0 \<and> range_Ns_SOA (Ns r) then ([], None)
               else ([], None)))"

section \<open>The retrying resolver\<close>

text \<open>
  What a run of \<^verbatim>\<open>getCNAMEWithRetry\<close> does besides returning: \<open>Attempt n\<close> is the
  \<open>n\<close>-th call of \<^verbatim>\<open>getCNAME\<close> (counted from 0), \<open>Sleep d\<close> a call of \<^verbatim>\<open>time.Sleep\<close>
  whose argument, a signed number of nanoseconds, is \<open>d\<close>.
\<close>

datatype event = Attempt nat | Sleep int

text \<open>The attempts and the sleeps of a run, each in order.\<close>

fun attempts :: "event list \<Rightarrow> nat list" where
  "attempts [] = []"
| "attempts (Attempt n # es) = n # attempts es"
| "attempts (Sleep d # es) = attempts es"

fun sleeps :: "event list \<Rightarrow> int list" where
  "sleeps [] = []"
| "sleeps (Attempt n # es) = sleeps es"
| "sleeps (Sleep d # es) = d # sleeps es"

text \<open>
  The loop \<^verbatim>\<open>for i := 0; i <= config.retries; i++\<close>. The counter \<open>i\<close> is a machine
  integer and \<^verbatim>\<open>i++\<close> wraps; \<open>n\<close> counts the calls of \<^verbatim>\<open>getCNAME\<close> made so far and
  selects the reply of the network. The loop need not end, so the result is an option:
  \<open>None\<close> is a run that never returns.
\<close>

partial_function (option) retry_loop ::
  "Config \<Rightarrow> network \<Rightarrow> string \<Rightarrow> string \<Rightarrow> 64 word \<Rightarrow> nat \<Rightarrow> error option
     \<Rightarrow> ((string \<times> error option) \<times> event list) option" where
  "retry_loop cfg net domain server i n lastErr =
     (if sint i \<le> sint (retries cfg) then
        (case getCNAME net n domain server of
           (cname, None) \<Rightarrow> Some ((cname, None), [Attempt n])
         | (cname, Some err) \<Rightarrow>
             Option.bind (retry_loop cfg net domain server (i + 1) (Suc n) (Some err))
               (\<lambda>(res, evs).
                  Some (res, Attempt n
                        # (if sint i < sint (retries cfg)
                           then [Sleep (sint (Millisecond * 100 * (i + 1)))] else [])
                        @ evs)))
      else Some (([], lastErr), []))"

declare retry_loop.simps [code]

definition getCNAMEWithRetry ::
  "Config \<Rightarrow> network \<Rightarrow> string \<Rightarrow> string
     \<Rightarrow> ((string \<times> error option) \<times> event list) option" where
  "getCNAMEWithRetry cfg net domain server = retry_loop cfg net domain server 0 0 None"

section \<open>The resolution verifier\<close>

text \<open>\<open>LookupHost\<close> is what \<^verbatim>\<open>resolver.LookupHost\<close> returns for a host name.\<close>

type_synonym resolver = "string \<Rightarrow> error + string list"

definition resolves :: "resolver \<Rightarrow> string \<Rightarrow> bool" where
  "resolves LookupHost domain =
     (case LookupHost (TrimSuffix domain ''.'') of Inl err \<Rightarrow> False | Inr addrs \<Rightarrow> True)"

section \<open>Processing one domain\<close>

text \<open>
  \<open>results\<close> are the strings sent on the channel \<^verbatim>\<open>results\<close>, in order; \<open>stderr\<close> the
  lines written to the error stream; \<open>events\<close> the attempts and sleeps of the lookup.
  \<^verbatim>\<open>processDomain\<close> returns when the lookup does.
\<close>

record Output =
  results :: "string list"
  stderr :: "string list"
  events :: "event list"

definition processDomain ::
  "Config \<Rightarrow> network \<Rightarrow> resolver \<Rightarrow> (string \<times> string) list \<Rightarrow> string \<Rightarrow> string
     \<Rightarrow> Output option" where
  "processDomain cfg net LookupHost order domain server =
     (case getCNAMEWithRetry cfg net domain server of
        None \<Rightarrow> None
      | Some ((cname, Some err), evs) \<Rightarrow>
          Some \<lparr>results = [],
                stderr = (if verbose cfg
                          then [''Error querying '' @ domain @ '': '' @ err @ [CHR 0x0A]]
                          else []),
                events = evs\<rparr>
      | Some ((cname, None), evs) \<Rightarrow>
          if cname = [] then
            Some \<lparr>results = [],
                  stderr = (if verbose cfg then [''No CNAME for '' @ domain @ [CHR 0x0A]]
                            else []),
                  events = evs\<rparr>
          else if \<not> resolves LookupHost cname then
            (let service = checkVulnerableService order cname in
             Some \<lparr>results =
                     (''[DANGLING] '' @ domain @ '' -> '' @ cname @ '' (does not resolve)'')
                     # (if service \<noteq> []
                        then [''[TAKEOVER] '' @ domain @ '' -> '' @ cname
                                @ '' (vulnerable: '' @ service @ '')'']
                        else []),
                   stderr = [], events = evs\<rparr>)
          else if verbose cfg then
            Some \<lparr>results = [''[OK] '' @ domain @ '' -> '' @ cname], stderr = [],
                  events = evs\<rparr>
          else Some \<lparr>results = [], stderr = [], events = evs\<rparr>)"

section \<open>The job dispatcher\<close>

record job =
  job_domain :: string
  job_server :: string

text \<open>The resolver pool that \<^verbatim>\<open>main\<close> stores in \<^verbatim>\<open>config.resolvers\<close>.\<close>

definition main_resolvers :: "string list" where
  "main_resolvers =
    [''1.1.1.1'', ''1.0.0.1'', ''8.8.8.8'', ''8.8.4.4'', ''9.9.9.9'', ''149.112.112.112'',
     ''208.67.222.222'', ''208.67.220.220'']"

text \<open>
  \<^verbatim>\<open>rand.Intn(n)\<close> is a number below \<open>n\<close>: the draw \<open>r\<close> of the generator reduced to the
  range. It panics for \<open>n \<le> 0\<close>, which \<^verbatim>\<open>main\<close> excludes: the pool has eight entries.
\<close>

definition Intn :: "nat \<Rightarrow> nat \<Rightarrow> nat" where
  "Intn r n = r mod n"

text \<open>
  The scanning loop of \<^verbatim>\<open>main\<close> over the lines that \<^verbatim>\<open>scanner.Text()\<close> yields; the
  result is the sequence of jobs sent on the channel \<^verbatim>\<open>jobs\<close>. The lines are arbitrary
  byte strings, so \<^verbatim>\<open>strings.ToLower\<close> and \<^verbatim>\<open>strings.TrimSpace\<close> enter as the functions
  \<open>toLower\<close> and \<open>trimSpace\<close>, whatever they do to a line. \<open>rnd k\<close> is the \<open>k\<close>-th draw
  of the random generator.
\<close>

fun scan_lines ::
  "(string \<Rightarrow> string) \<Rightarrow> (string \<Rightarrow> string) \<Rightarrow> (nat \<Rightarrow> nat) \<Rightarrow> nat \<Rightarrow> string list
     \<Rightarrow> job list" where
  "scan_lines toLower trimSpace rnd k [] = []"
| "scan_lines toLower trimSpace rnd k (text # rest) =
     (let domain = toLower (trimSpace text) in
      if domain = [] then scan_lines toLower trimSpace rnd k rest
      else \<lparr>job_domain = domain,
            job_server = main_resolvers ! Intn (rnd k) (length main_resolvers)\<rparr>
           # scan_lines toLower trimSpace rnd (Suc k) rest)"

section \<open>Example inputs\<close>

text \<open>
  A configuration with the default flags and verbose output; a network that fails the
  first two exchanges and then answers with an A record and two CNAME records; a network
  that always fails; host resolvers that never and always succeed; a job.
\<close>

definition example_config :: Config where
  "example_config =
     \<lparr>concurrency = 20, timeout = 5000 * Millisecond, verbose = True,
      resolvers = main_resolvers, retries = 2\<rparr>"

definition example_msg :: Msg where
  "example_msg =
     \<lparr>Answer = [RR_A, RR_CNAME ''Bucket.S3.amazonaws.com.'', RR_CNAME ''other.example.net.''],
      Ns = []\<rparr>"

definition flaky_network :: network where
  "flaky_network n qname address = (if n < 2 then Inl ''i/o timeout'' else Inr example_msg)"

definition dead_network :: network where
  "dead_network n qname address = Inl ''i/o timeout''"

definition no_such_host :: resolver where
  "no_such_host host = Inl ''no such host''"

definition any_host :: resolver where
  "any_host host = Inr [''192.0.2.1'']"

definition example_job :: job where
  "example_job = \<lparr>job_domain = ''abandoned.example.com'', job_server = ''1.1.1.1''\<rparr>"


section \<open>Properties of the string functions\<close>

lemma Contains_iff: "Contains s substr \<longleftrightarrow> (\<exists>pre post. s = pre @ substr @ post)"
proof (induction s)
  case Nil
  show ?case by auto
next
  case (Cons c s)
  show ?case
  proof
    assume "Contains (c # s) substr"
    then consider "prefix substr (c # s)" | "Contains s substr" by auto
    then show "\<exists>pre post. c # s = pre @ substr @ post"
    proof cases
      case 1
      then obtain post where "c # s = substr @ post" by (auto simp: prefix_def)
      then have "c # s = [] @ substr @ post" by simp
      then show ?thesis by (intro exI)
    next
      case 2
      with Cons obtain pre post where "s = pre @ substr @ post" by auto
      then have "c # s = (c # pre) @ substr @ post" by simp
      then show ?thesis by (intro exI)
    qed
  next
    assume "\<exists>pre post. c # s = pre @ substr @ post"
    then obtain pre post where eq: "c # s = pre @ substr @ post" by (elim exE)
    show "Contains (c # s) substr"
    proof (cases pre)
      case Nil
      with eq have "prefix substr (c # s)" by (simp add: prefix_def)
      then show ?thesis by simp
    next
      case (Cons a pre')
      with eq have "s = pre' @ substr @ post" by simp
      then have "\<exists>pre post. s = pre @ substr @ post" by (intro exI)
      with Cons.IH have "Contains s substr" by simp
      then show ?thesis by simp
    qed
  qed
qed

lemma TrimSuffix_dot:
  "TrimSuffix t ''.'' = (if t \<noteq> [] \<and> last t = CHR ''.'' then butlast t else t)"
proof (cases t rule: rev_cases)
  case Nil
  then show ?thesis by (simp add: TrimSuffix_def HasSuffix_def)
next
  case (snoc ys y)
  then show ?thesis by (simp add: TrimSuffix_def HasSuffix_def)
qed

section \<open>The classifier\<close>

lemma range_patterns_none:
  "\<forall>(p, s) \<in> set order. \<not> Contains c p \<Longrightarrow> range_patterns order c = []"
  by (induction order) auto

lemma range_patterns_split:
  "\<exists>(p, s) \<in> set order. Contains c p \<Longrightarrow>
   \<exists>ps p s qs. order = ps @ (p, s) # qs \<and> (\<forall>(p', s') \<in> set ps. \<not> Contains c p')
      \<and> Contains c p \<and> range_patterns order c = s"
proof (induction order)
  case Nil
  then show ?case by simp
next
  case (Cons a order)
  obtain p0 s0 where a: "a = (p0, s0)" by (cases a)
  show ?case
  proof (cases "Contains c p0")
    case True
    then have "a # order = [] @ (p0, s0) # order \<and> (\<forall>(p', s') \<in> set []. \<not> Contains c p')
      \<and> Contains c p0 \<and> range_patterns (a # order) c = s0"
      using a by simp
    then have "\<exists>qs. a # order = [] @ (p0, s0) # qs \<and> (\<forall>(p', s') \<in> set []. \<not> Contains c p')
      \<and> Contains c p0 \<and> range_patterns (a # order) c = s0"
      by (rule exI)
    then have "\<exists>s qs. a # order = [] @ (p0, s) # qs \<and> (\<forall>(p', s') \<in> set []. \<not> Contains c p')
      \<and> Contains c p0 \<and> range_patterns (a # order) c = s"
      by (rule exI)
    then have "\<exists>p s qs. a # order = [] @ (p, s) # qs \<and> (\<forall>(p', s') \<in> set []. \<not> Contains c p')
      \<and> Contains c p \<and> range_patterns (a # order) c = s"
      by (rule exI)
    then show ?thesis by (rule exI)
  next
    case False
    with Cons.prems a have "\<exists>(p, s) \<in> set order. Contains c p" by simp
    from Cons.IH [OF this] obtain ps p s qs where
      h: "order = ps @ (p, s) # qs \<and> (\<forall>(p', s') \<in> set ps. \<not> Contains c p')
         \<and> Contains c p \<and> range_patterns order c = s" by (elim exE)
    from False a have step: "range_patterns (a # order) c = range_patterns order c"
      by simp
    note g1 = h [THEN conjunct1]
      and g2 = h [THEN conjunct2, THEN conjunct1]
      and h3 = h [THEN conjunct2, THEN conjunct2, THEN conjunct1]
      and g4 = h [THEN conjunct2, THEN conjunct2, THEN conjunct2]
    from g1 have h1: "a # order = (a # ps) @ (p, s) # qs" by simp
    from g2 False a have h2: "\<forall>(p', s') \<in> set (a # ps). \<not> Contains c p'" by simp
    from g4 step have h4: "range_patterns (a # order) c = s" by (simp only:)
    from h1 h2 h3 h4 have "a # order = (a # ps) @ (p, s) # qs
      \<and> (\<forall>(p', s') \<in> set (a # ps). \<not> Contains c p')
      \<and> Contains c p \<and> range_patterns (a # order) c = s"
      by (intro conjI)
    then have "\<exists>qs. a # order = (a # ps) @ (p, s) # qs
      \<and> (\<forall>(p', s') \<in> set (a # ps). \<not> Contains c p')
      \<and> Contains c p \<and> range_patterns (a # order) c = s"
      by (rule exI)
    then have "\<exists>s qs. a # order = (a # ps) @ (p, s) # qs
      \<and> (\<forall>(p', s') \<in> set (a # ps). \<not> Contains c p')
      \<and> Contains c p \<and> range_patterns (a # order) c = s"
      by (rule exI)
    then have "\<exists>p s qs. a # order = (a # ps) @ (p, s) # qs
      \<and> (\<forall>(p', s') \<in> set (a # ps). \<not> Contains c p')
      \<and> Contains c p \<and> range_patterns (a # order) c = s"
      by (rule exI)
    then show ?thesis by (rule exI)
  qed
qed

lemma range_patterns_same:
  "\<forall>(p, s) \<in> set order. Contains c p \<longrightarrow> s = v \<Longrightarrow> \<exists>(p, s) \<in> set order. Contains c p \<Longrightarrow>
   range_patterns order c = v"
proof (induction order)
  case Nil
  then show ?case by simp
next
  case (Cons a order)
  obtain p0 s0 where a: "a = (p0, s0)" by (cases a)
  show ?case
  proof (cases "Contains c p0")
    case True
    with Cons.prems(1) a have "s0 = v" by simp
    with True a show ?thesis by simp
  next
    case False
    with Cons.prems(2) a have ex: "\<exists>(p, s) \<in> set order. Contains c p" by simp
    from Cons.prems(1) have "\<forall>(p, s) \<in> set order. Contains c p \<longrightarrow> s = v" by simp
    from Cons.IH [OF this ex] False a show ?thesis by simp
  qed
qed

lemma iteration_order_set: "iteration_order order \<Longrightarrow> set order = set vulnerablePatterns"
  unfolding iteration_order_def by (rule mset_eq_setD)

text \<open>
  Claim C1, as the code has it. Whatever order the map is iterated in, the classifier
  lowercases the target and returns the service of the first pattern of that order that
  occurs in the lowercased target, or the empty string when no pattern of the table
  occurs in it. When all patterns that occur in the target carry one service \<open>v\<close>, the
  result is \<open>v\<close> (or empty when none occurs) for every iteration order, so any two runs
  agree.
\<close>

theorem checkVulnerableService_first_match:
  assumes "iteration_order order"
  shows "((\<exists>ps p s qs. order = ps @ (p, s) # qs
            \<and> (\<forall>(p', s') \<in> set ps. \<not> Contains (ToLower cname) p')
            \<and> Contains (ToLower cname) p
            \<and> checkVulnerableService order cname = s)
          \<or> ((\<forall>(p, s) \<in> set vulnerablePatterns. \<not> Contains (ToLower cname) p)
            \<and> checkVulnerableService order cname = []))
       \<and> ((\<forall>(p, s) \<in> set vulnerablePatterns. Contains (ToLower cname) p \<longrightarrow> s = v) \<longrightarrow>
            checkVulnerableService order cname =
              (if \<exists>(p, s) \<in> set vulnerablePatterns. Contains (ToLower cname) p then v else []))"
proof -
  note st = iteration_order_set [OF assms]
  define c where "c = ToLower cname"
  have r: "checkVulnerableService order cname = range_patterns order c"
    by (simp add: checkVulnerableService_def c_def)
  have a: "(\<exists>ps p s qs. order = ps @ (p, s) # qs
            \<and> (\<forall>(p', s') \<in> set ps. \<not> Contains c p')
            \<and> Contains c p
            \<and> range_patterns order c = s)
          \<or> ((\<forall>(p, s) \<in> set vulnerablePatterns. \<not> Contains c p)
            \<and> range_patterns order c = [])"
  proof (cases "\<exists>(p, s) \<in> set order. Contains c p")
    case True
    from range_patterns_split [OF this] show ?thesis by (rule disjI1)
  next
    case False
    then have n: "\<forall>(p, s) \<in> set order. \<not> Contains c p" by (simp add: split_def)
    have "range_patterns order c = []" by (rule range_patterns_none [OF n])
    moreover from n have "\<forall>(p, s) \<in> set vulnerablePatterns. \<not> Contains c p"
      by (simp only: st)
    ultimately show ?thesis by (intro disjI2 conjI)
  qed
  have b: "(\<forall>(p, s) \<in> set vulnerablePatterns. Contains c p \<longrightarrow> s = v) \<longrightarrow>
            range_patterns order c =
              (if \<exists>(p, s) \<in> set vulnerablePatterns. Contains c p then v else [])"
  proof
    assume h: "\<forall>(p, s) \<in> set vulnerablePatterns. Contains c p \<longrightarrow> s = v"
    show "range_patterns order c =
              (if \<exists>(p, s) \<in> set vulnerablePatterns. Contains c p then v else [])"
    proof (cases "\<exists>(p, s) \<in> set vulnerablePatterns. Contains c p")
      case True
      from h have h': "\<forall>(p, s) \<in> set order. Contains c p \<longrightarrow> s = v" by (simp only: st)
      from True have t': "\<exists>(p, s) \<in> set order. Contains c p" by (simp only: st)
      have "range_patterns order c = v" by (rule range_patterns_same [OF h' t'])
      with True show ?thesis by simp
    next
      case False
      then have "\<forall>(p, s) \<in> set vulnerablePatterns. \<not> Contains c p" by (simp add: split_def)
      then have "\<forall>(p, s) \<in> set order. \<not> Contains c p" by (simp only: st)
      from range_patterns_none [OF this] False show ?thesis by simp
    qed
  qed
  from a b show ?thesis unfolding r c_def by (rule conjI)
qed

theorem checkVulnerableService_first_match_witness:
  "iteration_order (rev vulnerablePatterns)
   \<and> checkVulnerableService (rev vulnerablePatterns) ''Bucket.S3.amazonaws.com'' = ''AWS S3''"
proof -
  have h1: "iteration_order (rev vulnerablePatterns)"
    by (simp add: iteration_order_def)
  have h2: "\<forall>(p, s) \<in> set vulnerablePatterns.
         Contains (ToLower ''Bucket.S3.amazonaws.com'') p \<longrightarrow> s = ''AWS S3''"
    by code_simp
  have h3: "\<exists>(p, s) \<in> set vulnerablePatterns. Contains (ToLower ''Bucket.S3.amazonaws.com'') p"
    by code_simp
  note t = checkVulnerableService_first_match
    [OF h1, of "''Bucket.S3.amazonaws.com''" "''AWS S3''", THEN conjunct2, THEN mp, OF h2]
  from t h3
  have "checkVulnerableService (rev vulnerablePatterns) ''Bucket.S3.amazonaws.com'' = ''AWS S3''"
    by (simp only: if_True)
  with h1 show ?thesis by (intro conjI)
qed

text \<open>
  Claim C1, as stated, fails: the declaration order of the table and its reverse are both
  enumerations of the map, and on the target \<open>a.github.io.herokuapp.com\<close> the first
  returns \<open>Heroku\<close> and the second \<open>GitHub Pages\<close>.
\<close>

theorem checkVulnerableService_order_counterexample:
  "iteration_order vulnerablePatterns \<and> iteration_order (rev vulnerablePatterns)
   \<and> checkVulnerableService vulnerablePatterns ''a.github.io.herokuapp.com'' = ''Heroku''
   \<and> checkVulnerableService (rev vulnerablePatterns) ''a.github.io.herokuapp.com''
       = ''GitHub Pages''
   \<and> checkVulnerableService vulnerablePatterns ''a.github.io.herokuapp.com''
       \<noteq> checkVulnerableService (rev vulnerablePatterns) ''a.github.io.herokuapp.com''"
proof -
  have h1: "iteration_order vulnerablePatterns"
    by (simp add: iteration_order_def)
  have h2: "iteration_order (rev vulnerablePatterns)"
    by (simp add: iteration_order_def)
  have h3: "checkVulnerableService vulnerablePatterns ''a.github.io.herokuapp.com'' = ''Heroku''"
    by code_simp
  have h4: "checkVulnerableService (rev vulnerablePatterns) ''a.github.io.herokuapp.com''
       = ''GitHub Pages''"
    by code_simp
  have h5: "checkVulnerableService vulnerablePatterns ''a.github.io.herokuapp.com''
       \<noteq> checkVulnerableService (rev vulnerablePatterns) ''a.github.io.herokuapp.com''"
    unfolding h3 h4 by simp
  from h1 h2 h3 h4 h5 show ?thesis by (intro conjI)
qed

section \<open>One lookup\<close>

lemma range_Answer_CNAME_None:
  "range_Answer_CNAME rs = None \<longleftrightarrow> (\<forall>t. RR_CNAME t \<notin> set rs)"
  by (induction rs rule: range_Answer_CNAME.induct) auto

lemma range_Answer_CNAME_Some:
  "range_Answer_CNAME rs = Some c \<Longrightarrow> \<exists>t. RR_CNAME t \<in> set rs \<and> c = TrimSuffix t ''.''"
  by (induction rs rule: range_Answer_CNAME.induct) auto

lemma range_Answer_CNAME_first:
  "\<forall>t'. RR_CNAME t' \<notin> set pre \<Longrightarrow>
   range_Answer_CNAME (pre @ RR_CNAME t # post) = Some (TrimSuffix t ''.'')"
proof (induction pre)
  case Nil
  show ?case by simp
next
  case (Cons a pre)
  then have "range_Answer_CNAME (pre @ RR_CNAME t # post) = Some (TrimSuffix t ''.'')"
    by simp
  moreover from Cons.prems have "\<forall>t'. a \<noteq> RR_CNAME t'" by auto
  ultimately show ?case by (cases a) simp_all
qed

lemma getCNAME_response:
  assumes "net n (if \<not> HasSuffix domain ''.'' then domain @ ''.'' else domain)
             (server @ '':53'') = Inr r"
  shows "getCNAME net n domain server =
           (case range_Answer_CNAME (Answer r) of Some cname \<Rightarrow> cname | None \<Rightarrow> [], None)"
  using assms by (simp add: getCNAME_def Let_def split: option.split)

text \<open>
  Claim C3. A response received without error is read in this precedence: a CNAME record in
  the answer section gives its target without the trailing dot of the root label; else an
  A record in the answer section gives the empty string; else an SOA record in the
  authority section gives the empty string; else the empty string. In no case is the
  error of the result set.
\<close>

theorem getCNAME_precedence:
  assumes "net n (if \<not> HasSuffix domain ''.'' then domain @ ''.'' else domain)
             (server @ '':53'') = Inr r"
  shows "snd (getCNAME net n domain server) = None
    \<and> ((\<exists>t. RR_CNAME t \<in> set (Answer r)) \<longrightarrow>
         (\<exists>t. RR_CNAME t \<in> set (Answer r)
            \<and> fst (getCNAME net n domain server)
                = (if t \<noteq> [] \<and> last t = CHR ''.'' then butlast t else t)))
    \<and> ((\<forall>t. RR_CNAME t \<notin> set (Answer r)) \<and> RR_A \<in> set (Answer r) \<longrightarrow>
         fst (getCNAME net n domain server) = [])
    \<and> ((\<forall>t. RR_CNAME t \<notin> set (Answer r)) \<and> RR_A \<notin> set (Answer r)
          \<and> RR_SOA \<in> set (Ns r) \<longrightarrow>
         fst (getCNAME net n domain server) = [])
    \<and> ((\<forall>t. RR_CNAME t \<notin> set (Answer r)) \<and> RR_A \<notin> set (Answer r)
          \<and> RR_SOA \<notin> set (Ns r) \<longrightarrow>
         fst (getCNAME net n domain server) = [])"
proof -
  note g = getCNAME_response [where net = net and n = n and domain = domain and server = server
      and r = r, OF assms]
  have s: "snd (getCNAME net n domain server) = None"
    by (simp add: g)
  have e: "(\<forall>t. RR_CNAME t \<notin> set (Answer r)) \<Longrightarrow> fst (getCNAME net n domain server) = []"
    by (simp add: g range_Answer_CNAME_None [symmetric])
  have c: "(\<exists>t. RR_CNAME t \<in> set (Answer r)) \<longrightarrow>
         (\<exists>t. RR_CNAME t \<in> set (Answer r)
            \<and> fst (getCNAME net n domain server)
                = (if t \<noteq> [] \<and> last t = CHR ''.'' then butlast t else t))"
  proof
    assume "\<exists>t. RR_CNAME t \<in> set (Answer r)"
    then have "range_Answer_CNAME (Answer r) \<noteq> None"
      by (simp add: range_Answer_CNAME_None)
    then obtain c where c: "range_Answer_CNAME (Answer r) = Some c" by auto
    from range_Answer_CNAME_Some [OF c] obtain t where
      t: "RR_CNAME t \<in> set (Answer r)" "c = TrimSuffix t ''.''" by auto
    from c t have "fst (getCNAME net n domain server)
                = (if t \<noteq> [] \<and> last t = CHR ''.'' then butlast t else t)"
      by (simp add: g TrimSuffix_dot)
    with t(1) show "\<exists>t. RR_CNAME t \<in> set (Answer r)
            \<and> fst (getCNAME net n domain server)
                = (if t \<noteq> [] \<and> last t = CHR ''.'' then butlast t else t)"
      by (intro exI conjI)
  qed
  from s c e show ?thesis by simp
qed

theorem getCNAME_precedence_witness:
  "snd (getCNAME flaky_network 2 ''abandoned.example.com'' ''1.1.1.1'') = None
   \<and> fst (getCNAME flaky_network 2 ''abandoned.example.com'' ''1.1.1.1'')
       = ''Bucket.S3.amazonaws.com''"
proof -
  have h: "flaky_network 2
             (if \<not> HasSuffix ''abandoned.example.com'' ''.''
              then ''abandoned.example.com'' @ ''.'' else ''abandoned.example.com'')
             (''1.1.1.1'' @ '':53'') = Inr example_msg"
    by (simp add: flaky_network_def)
  from getCNAME_precedence [where net = flaky_network and n = 2
      and domain = "''abandoned.example.com''" and server = "''1.1.1.1''" and r = example_msg, OF h]
  have a: "snd (getCNAME flaky_network 2 ''abandoned.example.com'' ''1.1.1.1'') = None"
    by (rule conjunct1)
  have b: "fst (getCNAME flaky_network 2 ''abandoned.example.com'' ''1.1.1.1'')
       = ''Bucket.S3.amazonaws.com''"
    by code_simp
  from a b show ?thesis by (rule conjI)
qed

text \<open>
  Claim C10. When the answer section holds a CNAME record after records that are no CNAME,
  the lookup returns the target of that first CNAME record, whatever follows it, other
  CNAME records included.
\<close>

theorem getCNAME_first_CNAME:
  assumes "net n (if \<not> HasSuffix domain ''.'' then domain @ ''.'' else domain)
             (server @ '':53'') = Inr r"
    and "Answer r = pre @ RR_CNAME t # post"
    and "\<forall>t'. RR_CNAME t' \<notin> set pre"
  shows "getCNAME net n domain server = (TrimSuffix t ''.'', None)"
  using getCNAME_response [where net = net and n = n and domain = domain and server = server
      and r = r, OF assms(1)]
    range_Answer_CNAME_first [OF assms(3), of t post]
  by (simp add: assms(2))

theorem getCNAME_first_CNAME_witness:
  "getCNAME flaky_network 2 ''abandoned.example.com'' ''1.1.1.1''
     = (''Bucket.S3.amazonaws.com'', None)"
proof -
  have h: "flaky_network 2
             (if \<not> HasSuffix ''abandoned.example.com'' ''.''
              then ''abandoned.example.com'' @ ''.'' else ''abandoned.example.com'')
             (''1.1.1.1'' @ '':53'') = Inr example_msg"
    by (simp add: flaky_network_def)
  have a: "Answer example_msg
             = [RR_A] @ RR_CNAME ''Bucket.S3.amazonaws.com.'' # [RR_CNAME ''other.example.net.'']"
    by (simp add: example_msg_def)
  have p: "\<forall>t'. RR_CNAME t' \<notin> set [RR_A]" by simp
  have d: "TrimSuffix ''Bucket.S3.amazonaws.com.'' ''.'' = ''Bucket.S3.amazonaws.com''"
    by code_simp
  from getCNAME_first_CNAME [where net = flaky_network and n = 2
      and domain = "''abandoned.example.com''" and server = "''1.1.1.1''" and r = example_msg,
      OF h a p] d
  show ?thesis by simp
qed

section \<open>The retry loop\<close>

lemma sint_of_nat_64: "n < 2 ^ 63 \<Longrightarrow> sint (of_nat n :: 64 word) = int n"
  by (simp add: signed_of_nat signed_take_bit_int_eq_self)

lemma backoff_exact:
  assumes "n \<le> 92233720368"
  shows "sint (Millisecond * 100 * of_nat n :: 64 word) = 100000000 * int n"
proof -
  have e: "Millisecond * 100 * of_nat n = (of_nat (100000000 * n) :: 64 word)"
    by (simp add: Millisecond_def)
  from assms have s: "100000000 * n < 2 ^ 63" by simp
  show ?thesis unfolding e using sint_of_nat_64 [OF s] by simp
qed

lemma retry_loop_past:
  "\<not> sint i \<le> sint (retries cfg) \<Longrightarrow>
   retry_loop cfg net domain server i n lastErr = Some (([], lastErr), [])"
  by (subst retry_loop.simps) simp

lemma retry_loop_success:
  "sint i \<le> sint (retries cfg) \<Longrightarrow> getCNAME net n domain server = (cname, None) \<Longrightarrow>
   retry_loop cfg net domain server i n lastErr = Some ((cname, None), [Attempt n])"
  by (subst retry_loop.simps) simp

lemma retry_loop_failure:
  "sint i \<le> sint (retries cfg) \<Longrightarrow> getCNAME net n domain server = (cname, Some err) \<Longrightarrow>
   retry_loop cfg net domain server i n lastErr =
     Option.bind (retry_loop cfg net domain server (i + 1) (Suc n) (Some err))
       (\<lambda>(res, evs).
          Some (res, Attempt n
                # (if sint i < sint (retries cfg)
                   then [Sleep (sint (Millisecond * 100 * (i + 1)))] else [])
                @ evs))"
  by (subst retry_loop.simps) simp

lemma attempts_backoff:
  "attempts (concat (map (\<lambda>n. [Sleep (g n), Attempt n]) xs)) = xs"
  by (induction xs) simp_all

lemma sleeps_backoff:
  "sleeps (concat (map (\<lambda>n. [Sleep (g n), Attempt n]) xs)) = map g xs"
  by (induction xs) simp_all

text \<open>
  A run in which every attempt fails, for a \<open>retries\<close> between 0 and the largest \<^verbatim>\<open>int\<close>
  less one: the sleeps are what the machine multiplication gives.
\<close>

lemma retry_loop_all_fail:
  assumes nonneg: "0 \<le> sint (retries cfg)"
    and notmax: "sint (retries cfg) < 2 ^ 63 - 1"
    and fail: "\<forall>n \<le> nat (sint (retries cfg)). snd (getCNAME net n domain server) \<noteq> None"
  shows "k \<le> nat (sint (retries cfg)) \<Longrightarrow>
    retry_loop cfg net domain server (of_nat k) k lastErr =
      Some (([], snd (getCNAME net (nat (sint (retries cfg))) domain server)),
            Attempt k
            # concat (map (\<lambda>n. [Sleep (sint (Millisecond * 100 * of_nat n :: 64 word)),
                                  Attempt n])
                       [Suc k..<Suc (nat (sint (retries cfg)))]))"
proof (induction "nat (sint (retries cfg)) - k" arbitrary: k lastErr)
  case 0
  then have k: "k = nat (sint (retries cfg))" by simp
  with nonneg have ik: "int k = sint (retries cfg)" by simp
  from ik notmax have small: "k < 2 ^ 63" "Suc k < 2 ^ 63" by simp_all
  have sk: "sint (of_nat k :: 64 word) = int k"
    by (rule sint_of_nat_64 [OF small(1)])
  have ssk: "sint (of_nat k + 1 :: 64 word) = int k + 1"
    using sint_of_nat_64 [OF small(2)] by (simp add: add.commute)
  from fail k have "snd (getCNAME net k domain server) \<noteq> None" by simp
  then obtain c e where g: "getCNAME net k domain server = (c, Some e)"
    by (cases "getCNAME net k domain server") auto
  have le: "sint (of_nat k :: 64 word) \<le> sint (retries cfg)" using sk ik by simp
  have past: "\<not> sint (of_nat k + 1 :: 64 word) \<le> sint (retries cfg)" using ssk ik by simp
  have nlt: "\<not> sint (of_nat k :: 64 word) < sint (retries cfg)" using sk ik by simp
  have gR: "snd (getCNAME net (nat (sint (retries cfg))) domain server) = Some e"
    using g k by simp
  have emp: "[Suc k..<Suc (nat (sint (retries cfg)))] = []" using k by simp
  show ?case
    unfolding retry_loop_failure [OF le g] retry_loop_past [OF past] emp
    by (simp add: nlt gR)
next
  case (Suc m)
  then have lt: "k < nat (sint (retries cfg))" by simp
  then have ilt: "int k < sint (retries cfg)" by simp
  from ilt notmax have small: "k < 2 ^ 63" by simp
  have sk: "sint (of_nat k :: 64 word) = int k"
    by (rule sint_of_nat_64 [OF small])
  from lt have "k \<le> nat (sint (retries cfg))" by simp
  with fail have "snd (getCNAME net k domain server) \<noteq> None" by simp
  then obtain c e where g: "getCNAME net k domain server = (c, Some e)"
    by (cases "getCNAME net k domain server") auto
  have le: "sint (of_nat k :: 64 word) \<le> sint (retries cfg)" using sk ilt by simp
  have m: "m = nat (sint (retries cfg)) - Suc k" using Suc.hyps(2) by simp
  have sk': "Suc k \<le> nat (sint (retries cfg))" using lt by simp
  have w: "(of_nat k + 1 :: 64 word) = of_nat (Suc k)" by simp
  have ih: "retry_loop cfg net domain server (of_nat k + 1) (Suc k) (Some e) =
      Some (([], snd (getCNAME net (nat (sint (retries cfg))) domain server)),
            Attempt (Suc k)
            # concat (map (\<lambda>n. [Sleep (sint (Millisecond * 100 * of_nat n :: 64 word)),
                                  Attempt n])
                       [Suc (Suc k)..<Suc (nat (sint (retries cfg)))]))"
    using Suc.hyps(1) [OF m sk', of "Some e"] unfolding w [symmetric] by simp
  have up: "[Suc k..<Suc (nat (sint (retries cfg)))]
              = Suc k # [Suc (Suc k)..<Suc (nat (sint (retries cfg)))]"
    using lt by (simp add: upt_conv_Cons)
  have lt': "sint (of_nat k :: 64 word) < sint (retries cfg)" using sk ilt by simp
  show ?case
    unfolding retry_loop_failure [OF le g] ih up
    by (simp add: w lt' del: upt_Suc of_nat_Suc)
qed

lemma retry_loop_first_success:
  assumes within: "int k \<le> sint (retries cfg)"
    and fail: "\<forall>n < k. snd (getCNAME net n domain server) \<noteq> None"
    and ok: "snd (getCNAME net k domain server) = None"
  shows "j \<le> k \<Longrightarrow>
    retry_loop cfg net domain server (of_nat j) j lastErr =
      Some (getCNAME net k domain server,
            Attempt j
            # concat (map (\<lambda>n. [Sleep (sint (Millisecond * 100 * of_nat n :: 64 word)),
                                  Attempt n])
                       [Suc j..<Suc k]))"
proof (induction "k - j" arbitrary: j lastErr)
  case 0
  then have j: "j = k" by simp
  have "sint (retries cfg) < 2 ^ 63" using sint_lt [of "retries cfg"] by simp
  with within have small: "k < 2 ^ 63" by simp
  have sk: "sint (of_nat k :: 64 word) = int k"
    by (rule sint_of_nat_64 [OF small])
  from ok obtain c where g: "getCNAME net k domain server = (c, None)"
    by (cases "getCNAME net k domain server") auto
  have le: "sint (of_nat j :: 64 word) \<le> sint (retries cfg)" using within j sk by simp
  have g': "getCNAME net j domain server = (c, None)" using g j by simp
  show ?case
    unfolding retry_loop_success [OF le g'] using g j by simp
next
  case (Suc m)
  then have lt: "j < k" by simp
  have "sint (retries cfg) < 2 ^ 63" using sint_lt [of "retries cfg"] by simp
  with within lt have small: "j < 2 ^ 63" by simp
  have sj: "sint (of_nat j :: 64 word) = int j"
    by (rule sint_of_nat_64 [OF small])
  from lt within have ilt: "int j < sint (retries cfg)" by simp
  from fail lt have "snd (getCNAME net j domain server) \<noteq> None" by simp
  then obtain c e where g: "getCNAME net j domain server = (c, Some e)"
    by (cases "getCNAME net j domain server") auto
  have le: "sint (of_nat j :: 64 word) \<le> sint (retries cfg)" using sj ilt by simp
  have m: "m = k - Suc j" using Suc.hyps(2) by simp
  have sj': "Suc j \<le> k" using lt by simp
  have w: "(of_nat j + 1 :: 64 word) = of_nat (Suc j)" by simp
  have ih: "retry_loop cfg net domain server (of_nat j + 1) (Suc j) (Some e) =
      Some (getCNAME net k domain server,
            Attempt (Suc j)
            # concat (map (\<lambda>n. [Sleep (sint (Millisecond * 100 * of_nat n :: 64 word)),
                                  Attempt n])
                       [Suc (Suc j)..<Suc k]))"
    using Suc.hyps(1) [OF m sj', of "Some e"] unfolding w [symmetric] by simp
  have up: "[Suc j..<Suc k] = Suc j # [Suc (Suc j)..<Suc k]"
    using lt by (simp add: upt_conv_Cons)
  have lt': "sint (of_nat j :: 64 word) < sint (retries cfg)" using sj ilt by simp
  show ?case
    unfolding retry_loop_failure [OF le g] ih up
    by (simp add: w lt' del: upt_Suc of_nat_Suc)
qed

text \<open>
  With \<open>retries\<close> the largest \<^verbatim>\<open>int\<close> the loop condition holds for every value of the
  counter: when every attempt fails the loop never returns.
\<close>

lemma retry_loop_diverges:
  assumes max: "sint (retries cfg) = 2 ^ 63 - 1"
    and fail: "\<forall>n. snd (getCNAME net n domain server) \<noteq> None"
  shows "retry_loop cfg net domain server i n lastErr = None"
proof (rule ccontr)
  assume "retry_loop cfg net domain server i n lastErr \<noteq> None"
  then obtain y where y: "retry_loop cfg net domain server i n lastErr = Some y" by auto
  have "\<not> (cfg = cfg \<and> net = net \<and> domain = domain \<and> server = server)"
  proof (rule retry_loop.raw_induct
      [where P = "\<lambda>c nt dm sv i n le y. \<not> (c = cfg \<and> nt = net \<and> dm = domain \<and> sv = server)",
       OF _ y])
    fix f c nt dm sv and i' :: "64 word" and n' le' y'
    assume ih: "\<And>c nt dm sv i n le y. f c nt dm sv i n le = Some y \<Longrightarrow>
                  \<not> (c = cfg \<and> nt = net \<and> dm = domain \<and> sv = server)"
      and body: "(if sint i' \<le> sint (retries c) then
          (case getCNAME nt n' dm sv of
             (cname, None) \<Rightarrow> Some ((cname, None), [Attempt n'])
           | (cname, Some err) \<Rightarrow>
               Option.bind (f c nt dm sv (i' + 1) (Suc n') (Some err))
                 (\<lambda>(res, evs).
                    Some (res, Attempt n'
                          # (if sint i' < sint (retries c)
                             then [Sleep (sint (Millisecond * 100 * (i' + 1)))] else [])
                          @ evs)))
        else Some (([], le'), [])) = Some y'"
    show "\<not> (c = cfg \<and> nt = net \<and> dm = domain \<and> sv = server)"
    proof
      assume eq: "c = cfg \<and> nt = net \<and> dm = domain \<and> sv = server"
      have "sint i' < 2 ^ 63" using sint_lt [of i'] by simp
      with max eq have cond: "sint i' \<le> sint (retries c)" by simp
      from fail eq have "snd (getCNAME nt n' dm sv) \<noteq> None" by simp
      then obtain cn e where g: "getCNAME nt n' dm sv = (cn, Some e)"
        by (cases "getCNAME nt n' dm sv") auto
      from body cond g obtain z where "f c nt dm sv (i' + 1) (Suc n') (Some e) = Some z"
        by (auto simp: bind_eq_Some_conv)
      from ih [OF this] eq show False by simp
    qed
  qed
  then show False by simp
qed

text \<open>
  Claim C2, as the code has it. With \<open>0 \<le> retries \<le> 92233720368\<close> and every attempt
  failing, the run is attempt 0 followed, for \<open>i = 1, \<dots>, retries\<close>, by a sleep of
  \<open>100ms \<times> i\<close> (in nanoseconds) and then attempt \<open>i\<close>, the \<open>i + 1\<close>-th attempt:
  \<open>retries + 1\<close> attempts, a delay of \<open>100ms \<times> i\<close> before attempt \<open>i + 1\<close>, and nothing
  after the last attempt.
\<close>

theorem getCNAMEWithRetry_all_fail_trace:
  assumes "0 \<le> sint (retries cfg)"
    and "sint (retries cfg) \<le> 92233720368"
    and "\<forall>n \<le> nat (sint (retries cfg)). snd (getCNAME net n domain server) \<noteq> None"
  shows "map_option snd (getCNAMEWithRetry cfg net domain server)
           = Some (Attempt 0 # concat (map (\<lambda>i. [Sleep (100000000 * int i), Attempt i])
                                        [1..<Suc (nat (sint (retries cfg)))]))
       \<and> map_option (attempts \<circ> snd) (getCNAMEWithRetry cfg net domain server)
           = Some [0..<nat (sint (retries cfg) + 1)]
       \<and> map_option (length \<circ> attempts \<circ> snd) (getCNAMEWithRetry cfg net domain server)
           = Some (nat (sint (retries cfg) + 1))
       \<and> map_option (sleeps \<circ> snd) (getCNAMEWithRetry cfg net domain server)
           = Some (map (\<lambda>i. 100000000 * int i) [1..<Suc (nat (sint (retries cfg)))])"
proof -
  from assms(2) have notmax: "sint (retries cfg) < 2 ^ 63 - 1" by simp
  have ex: "map (\<lambda>n. [Sleep (sint (Millisecond * 100 * of_nat n :: 64 word)), Attempt n])
              [Suc 0..<Suc (nat (sint (retries cfg)))]
          = map (\<lambda>i. [Sleep (100000000 * int i), Attempt i])
              [Suc 0..<Suc (nat (sint (retries cfg)))]"
  proof (rule map_cong [OF refl])
    fix n assume "n \<in> set [Suc 0..<Suc (nat (sint (retries cfg)))]"
    then have "n \<le> nat (sint (retries cfg))" by auto
    with assms(2) have "n \<le> 92233720368" by simp
    from backoff_exact [OF this]
    show "[Sleep (sint (Millisecond * 100 * of_nat n :: 64 word)), Attempt n]
            = [Sleep (100000000 * int n), Attempt n]"
      by simp
  qed
  have run: "getCNAMEWithRetry cfg net domain server
      = Some (([], snd (getCNAME net (nat (sint (retries cfg))) domain server)),
              Attempt 0 # concat (map (\<lambda>i. [Sleep (100000000 * int i), Attempt i])
                                   [1..<Suc (nat (sint (retries cfg)))]))"
    unfolding getCNAMEWithRetry_def
    using retry_loop_all_fail [OF assms(1) notmax assms(3), of 0 None] ex
    by (simp del: upt_Suc)
  have n: "nat (sint (retries cfg) + 1) = Suc (nat (sint (retries cfg)))"
    using assms(1) by simp
  have up: "[0..<Suc (nat (sint (retries cfg)))] = 0 # [1..<Suc (nat (sint (retries cfg)))]"
    by (simp add: upt_conv_Cons)
  have tr: "map_option snd (getCNAMEWithRetry cfg net domain server)
           = Some (Attempt 0 # concat (map (\<lambda>i. [Sleep (100000000 * int i), Attempt i])
                                        [1..<Suc (nat (sint (retries cfg)))]))"
    unfolding run by (simp del: upt_Suc)
  have at: "map_option (attempts \<circ> snd) (getCNAMEWithRetry cfg net domain server)
           = Some [0..<nat (sint (retries cfg) + 1)]"
    unfolding run n up by (simp add: attempts_backoff del: upt_Suc)
  have len: "map_option (length \<circ> attempts \<circ> snd) (getCNAMEWithRetry cfg net domain server)
           = Some (nat (sint (retries cfg) + 1))"
    unfolding run n by (simp add: attempts_backoff del: upt_Suc)
  have sl: "map_option (sleeps \<circ> snd) (getCNAMEWithRetry cfg net domain server)
           = Some (map (\<lambda>i. 100000000 * int i) [1..<Suc (nat (sint (retries cfg)))])"
    unfolding run by (simp add: sleeps_backoff del: upt_Suc)
  from tr at len sl show ?thesis by (intro conjI)
qed

theorem getCNAMEWithRetry_all_fail_trace_witness:
  "map_option snd
     (getCNAMEWithRetry example_config dead_network ''broken.example.com'' ''8.8.8.8'')
     = Some [Attempt 0, Sleep 100000000, Attempt 1, Sleep 200000000, Attempt 2]"
proof -
  have h1: "0 \<le> sint (retries example_config)"
    by (simp add: example_config_def)
  have h2: "sint (retries example_config) \<le> 92233720368"
    by (simp add: example_config_def)
  have h3: "\<forall>n \<le> nat (sint (retries example_config)).
              snd (getCNAME dead_network n ''broken.example.com'' ''8.8.8.8'') \<noteq> None"
    by (simp add: getCNAME_def dead_network_def)
  have r: "nat (sint (retries example_config)) = 2"
    by (simp add: example_config_def)
  have e: "Attempt 0 # concat (map (\<lambda>i. [Sleep (100000000 * int i), Attempt i]) [1..<Suc 2])
           = [Attempt 0, Sleep 100000000, Attempt 1, Sleep 200000000, Attempt 2]"
    by code_simp
  from getCNAMEWithRetry_all_fail_trace [OF h1 h2 h3, THEN conjunct1] e
  show ?thesis unfolding r by (simp only:)
qed

text \<open>
  Claim C2, as stated for every \<open>retries \<ge> 0\<close>, fails: with \<open>retries = 92233720369\<close> and
  every attempt failing, the sleep before the last attempt is called with
  \<open>100000000 \<times> 92233720369\<close> wrapped into \<^verbatim>\<open>int64\<close>, the negative duration
  \<open>-9223372036809551616\<close>, and not with \<open>100ms \<times> 92233720369 = 9223372036900000000\<close>
  nanoseconds.
\<close>

theorem getCNAMEWithRetry_backoff_overflow_counterexample:
  "map_option (last \<circ> sleeps \<circ> snd)
     (getCNAMEWithRetry (example_config\<lparr>retries := 92233720369\<rparr>) dead_network
        ''broken.example.com'' ''8.8.8.8'')
     = Some (- 9223372036809551616)
   \<and> (- 9223372036809551616 :: int) \<noteq> 100000000 * 92233720369"
proof -
  let ?cfg = "example_config\<lparr>retries := 92233720369\<rparr>"
  have r: "nat (sint (retries ?cfg)) = 92233720369" by simp
  have h1: "0 \<le> sint (retries ?cfg)" by simp
  have h2: "sint (retries ?cfg) < 2 ^ 63 - 1" by simp
  have h3: "\<forall>n \<le> nat (sint (retries ?cfg)).
              snd (getCNAME dead_network n ''broken.example.com'' ''8.8.8.8'') \<noteq> None"
    by (simp add: getCNAME_def dead_network_def)
  have run: "map_option (sleeps \<circ> snd)
      (getCNAMEWithRetry ?cfg dead_network ''broken.example.com'' ''8.8.8.8'')
      = Some (map (\<lambda>n. sint (Millisecond * 100 * of_nat n :: 64 word))
                [Suc 0..<Suc 92233720369])"
    unfolding getCNAMEWithRetry_def
    using retry_loop_all_fail [OF h1 h2 h3, of 0 None]
    unfolding r by (simp add: sleeps_backoff del: upt_Suc)
  have ne: "[Suc 0..<Suc 92233720369] \<noteq> []" by simp
  have l: "last (map (\<lambda>n. sint (Millisecond * 100 * of_nat n :: 64 word))
                [Suc 0..<Suc 92233720369])
           = sint (Millisecond * 100 * of_nat 92233720369 :: 64 word)"
    using ne by (simp add: last_map del: upt_Suc)
  have v: "sint (Millisecond * 100 * of_nat 92233720369 :: 64 word) = - 9223372036809551616"
    by (simp add: Millisecond_def)
  have a: "map_option (last \<circ> sleeps \<circ> snd)
     (getCNAMEWithRetry ?cfg dead_network ''broken.example.com'' ''8.8.8.8'')
     = Some (- 9223372036809551616)"
    using run l v by (cases "getCNAMEWithRetry ?cfg dead_network ''broken.example.com''
      ''8.8.8.8''") simp_all
  have b: "(- 9223372036809551616 :: int) \<noteq> 100000000 * 92233720369" by simp
  from a b show ?thesis by (rule conjI)
qed

section \<open>Processing one domain\<close>

lemma processDomain_failed:
  "map_option fst (getCNAMEWithRetry cfg net domain server) = Some (cname, Some err) \<Longrightarrow>
   map_option results (processDomain cfg net LookupHost order domain server) = Some []
   \<and> map_option stderr (processDomain cfg net LookupHost order domain server)
       = Some (if verbose cfg then [''Error querying '' @ domain @ '': '' @ err @ [CHR 0x0A]]
               else [])"
  by (cases "getCNAMEWithRetry cfg net domain server") (auto simp: processDomain_def)

lemma processDomain_found:
  "map_option fst (getCNAMEWithRetry cfg net domain server) = Some (cname, None) \<Longrightarrow>
   cname \<noteq> [] \<Longrightarrow>
   map_option results (processDomain cfg net LookupHost order domain server) =
     Some (if \<not> resolves LookupHost cname then
        (''[DANGLING] '' @ domain @ '' -> '' @ cname @ '' (does not resolve)'')
        # (if checkVulnerableService order cname \<noteq> []
           then [''[TAKEOVER] '' @ domain @ '' -> '' @ cname
                   @ '' (vulnerable: '' @ checkVulnerableService order cname @ '')'']
           else [])
      else if verbose cfg then [''[OK] '' @ domain @ '' -> '' @ cname]
      else [])"
  by (cases "getCNAMEWithRetry cfg net domain server") (auto simp: processDomain_def Let_def)

text \<open>
  Claim C7, as the code has it. When attempt \<open>k\<close> is the first that succeeds, within the
  \<open>retries + 1\<close> attempts allowed, the retrying resolver returns the result of that attempt
  and makes the attempts \<open>0, \<dots>, k\<close> and no other. When \<open>retries\<close> is at least 0 and less
  than the largest \<^verbatim>\<open>int\<close>, and all attempts fail, it returns the error of the last
  attempt, the worker sends no finding, and it writes one diagnostic line to the error
  stream if verbose is set and nothing otherwise.
\<close>

theorem getCNAMEWithRetry_result:
  "(int k \<le> sint (retries cfg) \<and> (\<forall>n < k. snd (getCNAME net n domain server) \<noteq> None)
      \<and> snd (getCNAME net k domain server) = None \<longrightarrow>
      map_option fst (getCNAMEWithRetry cfg net domain server)
        = Some (getCNAME net k domain server)
      \<and> map_option (attempts \<circ> snd) (getCNAMEWithRetry cfg net domain server)
          = Some [0..<Suc k])
   \<and> (0 \<le> sint (retries cfg) \<and> sint (retries cfg) < 2 ^ 63 - 1
       \<and> (\<forall>n \<le> nat (sint (retries cfg)). snd (getCNAME net n domain server) \<noteq> None) \<longrightarrow>
      (\<exists>err. snd (getCNAME net (nat (sint (retries cfg))) domain server) = Some err
         \<and> map_option fst (getCNAMEWithRetry cfg net domain server) = Some ([], Some err)
         \<and> map_option results (processDomain cfg net LookupHost order domain server)
             = Some []
         \<and> map_option stderr (processDomain cfg net LookupHost order domain server)
             = Some (if verbose cfg
                     then [''Error querying '' @ domain @ '': '' @ err @ [CHR 0x0A]]
                     else [])))"
proof (intro conjI impI)
  assume a: "int k \<le> sint (retries cfg)
      \<and> (\<forall>n < k. snd (getCNAME net n domain server) \<noteq> None)
      \<and> snd (getCNAME net k domain server) = None"
  note a1 = a [THEN conjunct1] and a2 = a [THEN conjunct2, THEN conjunct1]
    and a3 = a [THEN conjunct2, THEN conjunct2]
  have r: "getCNAMEWithRetry cfg net domain server =
      Some (getCNAME net k domain server,
            Attempt 0
            # concat (map (\<lambda>n. [Sleep (sint (Millisecond * 100 * of_nat n :: 64 word)),
                                  Attempt n])
                       [Suc 0..<Suc k]))"
    unfolding getCNAMEWithRetry_def
    using retry_loop_first_success [OF a1 a2 a3, of 0 None] by (simp del: upt_Suc)
  show "map_option fst (getCNAMEWithRetry cfg net domain server)
          = Some (getCNAME net k domain server)"
    unfolding r by simp
  have up: "[0..<Suc k] = 0 # [Suc 0..<Suc k]"
    by (simp add: upt_conv_Cons)
  show "map_option (attempts \<circ> snd) (getCNAMEWithRetry cfg net domain server)
          = Some [0..<Suc k]"
    unfolding r up by (simp add: attempts_backoff del: upt_Suc)
next
  assume b: "0 \<le> sint (retries cfg) \<and> sint (retries cfg) < 2 ^ 63 - 1
       \<and> (\<forall>n \<le> nat (sint (retries cfg)). snd (getCNAME net n domain server) \<noteq> None)"
  note b1 = b [THEN conjunct1] and b2 = b [THEN conjunct2, THEN conjunct1]
    and b3 = b [THEN conjunct2, THEN conjunct2]
  from b3 have "snd (getCNAME net (nat (sint (retries cfg))) domain server) \<noteq> None" by simp
  then obtain err where
    e: "snd (getCNAME net (nat (sint (retries cfg))) domain server) = Some err"
    by auto
  have f: "map_option fst (getCNAMEWithRetry cfg net domain server) = Some ([], Some err)"
    unfolding getCNAMEWithRetry_def
    using retry_loop_all_fail [OF b1 b2 b3, of 0 None] e by (simp del: upt_Suc)
  note p = processDomain_failed [OF f, of LookupHost order]
  from e f p show "\<exists>err. snd (getCNAME net (nat (sint (retries cfg))) domain server) = Some err
         \<and> map_option fst (getCNAMEWithRetry cfg net domain server) = Some ([], Some err)
         \<and> map_option results (processDomain cfg net LookupHost order domain server)
             = Some []
         \<and> map_option stderr (processDomain cfg net LookupHost order domain server)
             = Some (if verbose cfg
                     then [''Error querying '' @ domain @ '': '' @ err @ [CHR 0x0A]]
                     else [])"
    by (intro exI [of _ err] conjI) simp_all
qed

theorem getCNAMEWithRetry_result_witness:
  "map_option fst
     (getCNAMEWithRetry example_config flaky_network ''abandoned.example.com'' ''1.1.1.1'')
     = Some (''Bucket.S3.amazonaws.com'', None)
   \<and> map_option (attempts \<circ> snd)
       (getCNAMEWithRetry example_config flaky_network ''abandoned.example.com'' ''1.1.1.1'')
       = Some [0, 1, 2]
   \<and> map_option fst
       (getCNAMEWithRetry example_config dead_network ''broken.example.com'' ''8.8.8.8'')
       = Some ([], Some ''DNS query failed: i/o timeout'')
   \<and> map_option results
       (processDomain example_config dead_network no_such_host vulnerablePatterns
          ''broken.example.com'' ''8.8.8.8'') = Some []
   \<and> map_option stderr
       (processDomain example_config dead_network no_such_host vulnerablePatterns
          ''broken.example.com'' ''8.8.8.8'')
       = Some [''Error querying broken.example.com: DNS query failed: i/o timeout''
               @ [CHR 0x0A]]"
proof -
  have a1: "int 2 \<le> sint (retries example_config)"
    by (simp add: example_config_def)
  have a2: "\<forall>n < 2. snd (getCNAME flaky_network n ''abandoned.example.com'' ''1.1.1.1'') \<noteq> None"
    by (simp add: getCNAME_def flaky_network_def)
  have a3: "snd (getCNAME flaky_network 2 ''abandoned.example.com'' ''1.1.1.1'') = None"
    by code_simp
  have a4: "getCNAME flaky_network 2 ''abandoned.example.com'' ''1.1.1.1''
              = (''Bucket.S3.amazonaws.com'', None)"
    by code_simp
  have a5: "[0..<Suc 2] = [0, 1, 2]"
    by code_simp
  note first = getCNAMEWithRetry_result
    [where k = 2 and cfg = example_config and net = flaky_network
       and domain = "''abandoned.example.com''" and server = "''1.1.1.1''",
     THEN conjunct1, THEN mp, OF conjI [OF a1 conjI [OF a2 a3]]]
  have b1: "0 \<le> sint (retries example_config)"
    by (simp add: example_config_def)
  have b2: "sint (retries example_config) < 2 ^ 63 - 1"
    by (simp add: example_config_def)
  have b3: "\<forall>n \<le> nat (sint (retries example_config)).
              snd (getCNAME dead_network n ''broken.example.com'' ''8.8.8.8'') \<noteq> None"
    by (simp add: getCNAME_def dead_network_def)
  have b4: "snd (getCNAME dead_network (nat (sint (retries example_config)))
                   ''broken.example.com'' ''8.8.8.8'') = Some ''DNS query failed: i/o timeout''"
    by (simp add: getCNAME_def dead_network_def)
  have b5: "verbose example_config"
    by (simp add: example_config_def)
  note last = getCNAMEWithRetry_result
    [where cfg = example_config and net = dead_network
       and domain = "''broken.example.com''" and server = "''8.8.8.8''"
       and LookupHost = no_such_host and order = vulnerablePatterns,
     THEN conjunct2, THEN mp, OF conjI [OF b1 conjI [OF b2 b3]]]
  from first a4 a5 last b4 b5 show ?thesis by auto
qed

text \<open>
  Claim C7, as stated for every pair, fails where \<open>retries\<close> is the largest \<^verbatim>\<open>int\<close>: the
  counter wraps before it can exceed \<open>retries\<close>, and when every attempt fails the
  retrying resolver never returns, so it returns no error.
\<close>

theorem getCNAMEWithRetry_never_returns_counterexample:
  "getCNAMEWithRetry (example_config\<lparr>retries := 9223372036854775807\<rparr>) dead_network
     ''broken.example.com'' ''8.8.8.8'' = None
   \<and> processDomain (example_config\<lparr>retries := 9223372036854775807\<rparr>) dead_network
       no_such_host vulnerablePatterns ''broken.example.com'' ''8.8.8.8'' = None"
proof -
  have m: "sint (retries (example_config\<lparr>retries := 9223372036854775807\<rparr>)) = 2 ^ 63 - 1"
    by simp
  have f: "\<forall>n. snd (getCNAME dead_network n ''broken.example.com'' ''8.8.8.8'') \<noteq> None"
    by (simp add: getCNAME_def dead_network_def)
  have a: "getCNAMEWithRetry (example_config\<lparr>retries := 9223372036854775807\<rparr>) dead_network
     ''broken.example.com'' ''8.8.8.8'' = None"
    unfolding getCNAMEWithRetry_def by (rule retry_loop_diverges [OF m f])
  then have b: "processDomain (example_config\<lparr>retries := 9223372036854775807\<rparr>) dead_network
       no_such_host vulnerablePatterns ''broken.example.com'' ''8.8.8.8'' = None"
    by (simp add: processDomain_def)
  from a b show ?thesis by (rule conjI)
qed

text \<open>
  Claim C9. With a negative \<open>retries\<close> the retrying resolver makes no attempt and returns
  the empty string and a nil error; the worker treats the domain as one without CNAME: no
  finding, and the notice of a missing CNAME if verbose is set.
\<close>

theorem getCNAMEWithRetry_negative_retries:
  assumes "sint (retries cfg) < 0"
  shows "getCNAMEWithRetry cfg net domain server = Some (([], None), [])
    \<and> processDomain cfg net LookupHost order domain server
        = Some \<lparr>results = [],
                stderr = (if verbose cfg then [''No CNAME for '' @ domain @ [CHR 0x0A]]
                          else []),
                events = []\<rparr>"
proof -
  from assms have "\<not> sint (0 :: 64 word) \<le> sint (retries cfg)" by simp
  from retry_loop_past [OF this]
  have g: "getCNAMEWithRetry cfg net domain server = Some (([], None), [])"
    by (simp add: getCNAMEWithRetry_def)
  then show ?thesis by (simp add: processDomain_def)
qed

theorem getCNAMEWithRetry_negative_retries_witness:
  "getCNAMEWithRetry (example_config\<lparr>retries := - 1\<rparr>) flaky_network
      ''abandoned.example.com'' ''1.1.1.1'' = Some (([], None), [])
   \<and> processDomain (example_config\<lparr>retries := - 1\<rparr>) flaky_network no_such_host
        vulnerablePatterns ''abandoned.example.com'' ''1.1.1.1''
        = Some \<lparr>results = [],
                stderr = [''No CNAME for abandoned.example.com'' @ [CHR 0x0A]],
                events = []\<rparr>"
proof -
  have h: "sint (retries (example_config\<lparr>retries := - 1\<rparr>)) < 0" by simp
  have v: "verbose (example_config\<lparr>retries := - 1\<rparr>)" by (simp add: example_config_def)
  from getCNAMEWithRetry_negative_retries [OF h, of flaky_network
      "''abandoned.example.com''" "''1.1.1.1''" no_such_host vulnerablePatterns] v
  show ?thesis by simp
qed

section \<open>Findings of one domain\<close>

lemma services_nonempty: "\<forall>(p, s) \<in> set vulnerablePatterns. s \<noteq> []"
  by (simp add: vulnerablePatterns_def)

lemma range_patterns_nonempty:
  "\<forall>(p, s) \<in> set order. s \<noteq> [] \<Longrightarrow> \<exists>(p, s) \<in> set order. Contains c p \<Longrightarrow>
   range_patterns order c \<noteq> []"
proof (induction order)
  case Nil
  then show ?case by simp
next
  case (Cons a order)
  obtain p0 s0 where a: "a = (p0, s0)" by (cases a)
  show ?case
  proof (cases "Contains c p0")
    case True
    with Cons.prems(1) a show ?thesis by simp
  next
    case False
    with Cons.prems(2) a have ex: "\<exists>(p, s) \<in> set order. Contains c p" by simp
    from Cons.prems(1) have "\<forall>(p, s) \<in> set order. s \<noteq> []" by simp
    from Cons.IH [OF this ex] False a show ?thesis by simp
  qed
qed

lemma example_lookup:
  assumes "retries cfg = 2"
  shows "map_option fst (getCNAMEWithRetry cfg flaky_network ''abandoned.example.com''
                           ''1.1.1.1'') = Some (''Bucket.S3.amazonaws.com'', None)"
proof -
  have a1: "int 2 \<le> sint (retries cfg)"
    by (simp add: assms)
  have a2: "\<forall>n < 2. snd (getCNAME flaky_network n ''abandoned.example.com'' ''1.1.1.1'') \<noteq> None"
    by (simp add: getCNAME_def flaky_network_def)
  have a3: "snd (getCNAME flaky_network 2 ''abandoned.example.com'' ''1.1.1.1'') = None"
    by code_simp
  have a4: "getCNAME flaky_network 2 ''abandoned.example.com'' ''1.1.1.1''
              = (''Bucket.S3.amazonaws.com'', None)"
    by code_simp
  show ?thesis
    unfolding getCNAMEWithRetry_def
    using retry_loop_first_success [OF a1 a2 a3, of 0 None] a4 by (simp del: upt_Suc)
qed

text \<open>
  Claim C5. For a domain whose lookup returns a non-empty target without error, and whose
  target does not resolve, the worker sends the Dangling line and, right after it, the
  Takeover line exactly when the classifier returns a non-empty service. When a pattern of
  the table occurs in the lowercased target, the classifier's result is non-empty for
  every iteration order, so the findings are exactly two: Dangling, then Takeover.
\<close>

theorem processDomain_dangling:
  assumes "map_option fst (getCNAMEWithRetry cfg net domain server) = Some (cname, None)"
    and "cname \<noteq> []"
    and "\<not> resolves LookupHost cname"
    and "iteration_order order"
  shows "map_option results (processDomain cfg net LookupHost order domain server) =
           Some ((''[DANGLING] '' @ domain @ '' -> '' @ cname @ '' (does not resolve)'')
                 # (if checkVulnerableService order cname \<noteq> []
                    then [''[TAKEOVER] '' @ domain @ '' -> '' @ cname
                            @ '' (vulnerable: '' @ checkVulnerableService order cname @ '')'']
                    else []))
     \<and> ((\<exists>(p, s) \<in> set vulnerablePatterns. Contains (ToLower cname) p) \<longrightarrow>
          checkVulnerableService order cname \<noteq> []
          \<and> map_option results (processDomain cfg net LookupHost order domain server) =
             Some [''[DANGLING] '' @ domain @ '' -> '' @ cname @ '' (does not resolve)'',
                   ''[TAKEOVER] '' @ domain @ '' -> '' @ cname
                      @ '' (vulnerable: '' @ checkVulnerableService order cname @ '')''])"
proof -
  have r: "map_option results (processDomain cfg net LookupHost order domain server) =
           Some ((''[DANGLING] '' @ domain @ '' -> '' @ cname @ '' (does not resolve)'')
                 # (if checkVulnerableService order cname \<noteq> []
                    then [''[TAKEOVER] '' @ domain @ '' -> '' @ cname
                            @ '' (vulnerable: '' @ checkVulnerableService order cname @ '')'']
                    else []))"
    using processDomain_found [OF assms(1) assms(2), of LookupHost order] assms(3)
    by simp
  have m: "(\<exists>(p, s) \<in> set vulnerablePatterns. Contains (ToLower cname) p) \<Longrightarrow>
          checkVulnerableService order cname \<noteq> []"
  proof -
    assume "\<exists>(p, s) \<in> set vulnerablePatterns. Contains (ToLower cname) p"
    then have ex: "\<exists>(p, s) \<in> set order. Contains (ToLower cname) p"
      by (simp only: iteration_order_set [OF assms(4)])
    have ne: "\<forall>(p, s) \<in> set order. s \<noteq> []"
      using services_nonempty by (simp only: iteration_order_set [OF assms(4)])
    from range_patterns_nonempty [OF ne ex] show ?thesis
      by (simp add: checkVulnerableService_def)
  qed
  show ?thesis
  proof (intro conjI impI)
    show "map_option results (processDomain cfg net LookupHost order domain server) =
           Some ((''[DANGLING] '' @ domain @ '' -> '' @ cname @ '' (does not resolve)'')
                 # (if checkVulnerableService order cname \<noteq> []
                    then [''[TAKEOVER] '' @ domain @ '' -> '' @ cname
                            @ '' (vulnerable: '' @ checkVulnerableService order cname @ '')'']
                    else []))"
      by (rule r)
  next
    assume "\<exists>(p, s) \<in> set vulnerablePatterns. Contains (ToLower cname) p"
    then show "checkVulnerableService order cname \<noteq> []" by (rule m)
  next
    assume "\<exists>(p, s) \<in> set vulnerablePatterns. Contains (ToLower cname) p"
    then have ne: "checkVulnerableService order cname \<noteq> []" by (rule m)
    show "map_option results (processDomain cfg net LookupHost order domain server) =
             Some [''[DANGLING] '' @ domain @ '' -> '' @ cname @ '' (does not resolve)'',
                   ''[TAKEOVER] '' @ domain @ '' -> '' @ cname
                      @ '' (vulnerable: '' @ checkVulnerableService order cname @ '')'']"
      unfolding r using ne by simp
  qed
qed

theorem processDomain_dangling_witness:
  "map_option results
     (processDomain example_config flaky_network no_such_host vulnerablePatterns
        ''abandoned.example.com'' ''1.1.1.1'')
     = Some [''[DANGLING] abandoned.example.com -> Bucket.S3.amazonaws.com (does not resolve)'',
             ''[TAKEOVER] abandoned.example.com -> Bucket.S3.amazonaws.com (vulnerable: AWS S3)'']"
proof -
  have h1: "map_option fst
      (getCNAMEWithRetry example_config flaky_network ''abandoned.example.com'' ''1.1.1.1'')
      = Some (''Bucket.S3.amazonaws.com'', None)"
    by (rule example_lookup) (simp add: example_config_def)
  have h2: "''Bucket.S3.amazonaws.com'' \<noteq> []" by simp
  have h3: "\<not> resolves no_such_host ''Bucket.S3.amazonaws.com''"
    by (simp add: resolves_def no_such_host_def)
  have h4: "iteration_order vulnerablePatterns"
    by (simp add: iteration_order_def)
  have c: "checkVulnerableService vulnerablePatterns ''Bucket.S3.amazonaws.com'' = ''AWS S3''"
    by code_simp
  from processDomain_dangling [OF h1 h2 h3 h4, THEN conjunct1]
  show ?thesis unfolding c by simp
qed

text \<open>
  Claim C6. For a domain whose lookup returns a non-empty target without error, and whose
  target resolves, the worker sends the OK line if verbose is set and nothing otherwise.
\<close>

theorem processDomain_resolving:
  assumes "map_option fst (getCNAMEWithRetry cfg net domain server) = Some (cname, None)"
    and "cname \<noteq> []"
    and "resolves LookupHost cname"
  shows "map_option results (processDomain cfg net LookupHost order domain server)
           = Some (if verbose cfg then [''[OK] '' @ domain @ '' -> '' @ cname] else [])"
  using processDomain_found [OF assms(1) assms(2), of LookupHost order] assms(3)
  by simp

theorem processDomain_resolving_witness:
  "map_option results
     (processDomain example_config flaky_network any_host vulnerablePatterns
        ''abandoned.example.com'' ''1.1.1.1'')
     = Some [''[OK] abandoned.example.com -> Bucket.S3.amazonaws.com'']
   \<and> map_option results
       (processDomain (example_config\<lparr>verbose := False\<rparr>) flaky_network any_host
          vulnerablePatterns ''abandoned.example.com'' ''1.1.1.1'') = Some []"
proof -
  have h1: "map_option fst
      (getCNAMEWithRetry example_config flaky_network ''abandoned.example.com'' ''1.1.1.1'')
      = Some (''Bucket.S3.amazonaws.com'', None)"
    by (rule example_lookup) (simp add: example_config_def)
  have h1': "map_option fst
      (getCNAMEWithRetry (example_config\<lparr>verbose := False\<rparr>) flaky_network
         ''abandoned.example.com'' ''1.1.1.1'') = Some (''Bucket.S3.amazonaws.com'', None)"
    by (rule example_lookup) (simp add: example_config_def)
  have h2: "''Bucket.S3.amazonaws.com'' \<noteq> []" by simp
  have h3: "resolves any_host ''Bucket.S3.amazonaws.com''"
    by (simp add: resolves_def any_host_def)
  have v: "verbose example_config" by (simp add: example_config_def)
  have v': "\<not> verbose (example_config\<lparr>verbose := False\<rparr>)" by simp
  from processDomain_resolving [OF h1 h2 h3, where order = vulnerablePatterns] v
  have a: "map_option results
     (processDomain example_config flaky_network any_host vulnerablePatterns
        ''abandoned.example.com'' ''1.1.1.1'')
     = Some [''[OK] abandoned.example.com -> Bucket.S3.amazonaws.com'']"
    by simp
  from processDomain_resolving [OF h1' h2 h3, where order = vulnerablePatterns] v'
  have b: "map_option results
       (processDomain (example_config\<lparr>verbose := False\<rparr>) flaky_network any_host
          vulnerablePatterns ''abandoned.example.com'' ''1.1.1.1'') = Some []"
    by simp
  from a b show ?thesis by (rule conjI)
qed

text \<open>
  Claim C8. Every line the worker sends for a job is an OK, Dangling or Takeover line built
  from the domain of the job as it was dispatched; the target in it is the one the
  retrying resolver returned, and the service the classifier's result for that target.
  The worker sends nothing for a job whose lookup does not return.
\<close>

theorem processDomain_findings_domain:
  "(getCNAMEWithRetry cfg net (job_domain j) (job_server j) = None \<longrightarrow>
      processDomain cfg net LookupHost order (job_domain j) (job_server j) = None)
   \<and> (\<forall>res evs. getCNAMEWithRetry cfg net (job_domain j) (job_server j) = Some (res, evs) \<longrightarrow>
        (\<exists>out. processDomain cfg net LookupHost order (job_domain j) (job_server j) = Some out
           \<and> (\<forall>f \<in> set (results out).
                f = ''[OK] '' @ job_domain j @ '' -> '' @ fst res
              \<or> f = ''[DANGLING] '' @ job_domain j @ '' -> '' @ fst res
                    @ '' (does not resolve)''
              \<or> f = ''[TAKEOVER] '' @ job_domain j @ '' -> '' @ fst res
                    @ '' (vulnerable: '' @ checkVulnerableService order (fst res) @ '')'')))"
proof (intro conjI impI allI)
  assume "getCNAMEWithRetry cfg net (job_domain j) (job_server j) = None"
  then show "processDomain cfg net LookupHost order (job_domain j) (job_server j) = None"
    by (simp add: processDomain_def)
next
  fix res evs
  assume g: "getCNAMEWithRetry cfg net (job_domain j) (job_server j) = Some (res, evs)"
  obtain cname err where res: "res = (cname, err)" by (cases res)
  show "\<exists>out. processDomain cfg net LookupHost order (job_domain j) (job_server j) = Some out
           \<and> (\<forall>f \<in> set (results out).
                f = ''[OK] '' @ job_domain j @ '' -> '' @ fst res
              \<or> f = ''[DANGLING] '' @ job_domain j @ '' -> '' @ fst res
                    @ '' (does not resolve)''
              \<or> f = ''[TAKEOVER] '' @ job_domain j @ '' -> '' @ fst res
                    @ '' (vulnerable: '' @ checkVulnerableService order (fst res) @ '')'')"
  proof (cases err)
    case (Some e)
    with g res show ?thesis by (simp add: processDomain_def)
  next
    case None
    with g res show ?thesis by (simp add: processDomain_def Let_def)
  qed
qed

theorem processDomain_findings_domain_witness:
  "map_option results
     (processDomain example_config flaky_network no_such_host vulnerablePatterns
        (job_domain example_job) (job_server example_job))
     = Some [''[DANGLING] abandoned.example.com -> Bucket.S3.amazonaws.com (does not resolve)'',
             ''[TAKEOVER] abandoned.example.com -> Bucket.S3.amazonaws.com (vulnerable: AWS S3)'']
   \<and> (\<exists>out. processDomain example_config flaky_network no_such_host vulnerablePatterns
               (job_domain example_job) (job_server example_job) = Some out)"
proof -
  have r: "map_option results
     (processDomain example_config flaky_network no_such_host vulnerablePatterns
        (job_domain example_job) (job_server example_job))
     = Some [''[DANGLING] abandoned.example.com -> Bucket.S3.amazonaws.com (does not resolve)'',
             ''[TAKEOVER] abandoned.example.com -> Bucket.S3.amazonaws.com (vulnerable: AWS S3)'']"
    by code_simp
  have "retries example_config = 2" by (simp add: example_config_def)
  from example_lookup [OF this] obtain res evs where
    g: "getCNAMEWithRetry example_config flaky_network (job_domain example_job)
          (job_server example_job) = Some (res, evs)"
    by (auto simp: example_job_def)
  from processDomain_findings_domain
    [of example_config flaky_network example_job no_such_host vulnerablePatterns,
     THEN conjunct2, THEN spec, THEN spec, THEN mp, OF g]
  have "\<exists>out. processDomain example_config flaky_network no_such_host vulnerablePatterns
               (job_domain example_job) (job_server example_job) = Some out"
    by (elim exE conjE, intro exI)
  with r show ?thesis by (rule conjI)
qed

section \<open>Dispatching\<close>

lemma main_resolvers_nth: "main_resolvers ! Intn r (length main_resolvers) \<in> set main_resolvers"
proof -
  have "length main_resolvers = 8" by (simp add: main_resolvers_def)
  then have "Intn r (length main_resolvers) < length main_resolvers"
    by (simp add: Intn_def)
  then show ?thesis by (rule nth_mem)
qed

text \<open>
  Claim C4. Whatever \<^verbatim>\<open>strings.TrimSpace\<close> and \<^verbatim>\<open>strings.ToLower\<close> do to a line, the
  dispatcher sends one job for each input line whose trimmed and lowercased form is not
  empty, in the order of the lines, with that form as the domain and a server of the
  resolver pool; it sends no job for the other lines.
\<close>

theorem scan_lines_jobs:
  "map job_domain (scan_lines toLower trimSpace rnd k lines)
     = filter (\<lambda>domain. domain \<noteq> []) (map (\<lambda>text. toLower (trimSpace text)) lines)
   \<and> length (scan_lines toLower trimSpace rnd k lines)
       = length (filter (\<lambda>text. toLower (trimSpace text) \<noteq> []) lines)
   \<and> (\<forall>j \<in> set (scan_lines toLower trimSpace rnd k lines).
        job_server j \<in> set main_resolvers)"
proof (induction lines arbitrary: k)
  case Nil
  show ?case by simp
next
  case (Cons line rest)
  show ?case
  proof (cases "toLower (trimSpace line) = []")
    case True
    with Cons [of k] show ?thesis by (simp add: Let_def)
  next
    case False
    with Cons [of "Suc k"] main_resolvers_nth [of "rnd k"] show ?thesis
      by (simp add: Let_def)
  qed
qed

theorem scan_lines_jobs_witness:
  "map job_domain
     (scan_lines ToLower TrimSpace_ascii (\<lambda>k. 3 * k + 5) 0
        [''  Foo.COM '', '''', ''   '', ''bar.org''])
     = [''foo.com'', ''bar.org'']
   \<and> scan_lines ToLower TrimSpace_ascii (\<lambda>k. 3 * k + 5) 0
       [''  Foo.COM '', '''', ''   '', ''bar.org'']
     = [\<lparr>job_domain = ''foo.com'', job_server = ''149.112.112.112''\<rparr>,
        \<lparr>job_domain = ''bar.org'', job_server = ''1.1.1.1''\<rparr>]"
proof -
  have e: "filter (\<lambda>domain. domain \<noteq> [])
             (map (\<lambda>text. ToLower (TrimSpace_ascii text))
                [''  Foo.COM '', '''', ''   '', ''bar.org''])
           = [''foo.com'', ''bar.org'']"
    by code_simp
  from scan_lines_jobs [of ToLower TrimSpace_ascii "\<lambda>k. 3 * k + 5" 0
      "[''  Foo.COM '', '''', ''   '', ''bar.org'']", THEN conjunct1] e
  have a: "map job_domain
     (scan_lines ToLower TrimSpace_ascii (\<lambda>k. 3 * k + 5) 0
        [''  Foo.COM '', '''', ''   '', ''bar.org''])
     = [''foo.com'', ''bar.org'']"
    by (simp only:)
  have b: "scan_lines ToLower TrimSpace_ascii (\<lambda>k. 3 * k + 5) 0
       [''  Foo.COM '', '''', ''   '', ''bar.org'']
     = [\<lparr>job_domain = ''foo.com'', job_server = ''149.112.112.112''\<rparr>,
        \<lparr>job_domain = ''bar.org'', job_server = ''1.1.1.1''\<rparr>]"
    by code_simp
  from a b show ?thesis by (rule conjI)
qed

end
